theory Spec2Isabelle
  imports Main "HOL-Library.Word"
begin

section \<open>Strings and the generic URL pattern\<close>

text \<open>
  Python strings are modelled as \<^typ>\<open>string\<close>, one \<^typ>\<open>char\<close> per code point below 256.
  \<open>is_space\<close> is the class \<^verbatim>\<open>\s\<close> of Python's \<^verbatim>\<open>re\<close> on that range: tab, line feed,
  vertical tab, form feed, carriage return, the separators 0x1c to 0x1f, the blank,
  0x85 and 0xa0.
\<close>

definition is_space :: "char \<Rightarrow> bool" where
  "is_space c =
     (let n = (of_char c :: nat)
      in (9 \<le> n \<and> n \<le> 13) \<or> (28 \<le> n \<and> n \<le> 32) \<or> n = 133 \<or> n = 160)"

definition startswith :: "string \<Rightarrow> string \<Rightarrow> bool" where
  "startswith s p = (take (length p) s = p)"

definition nonspace_run :: "string \<Rightarrow> string" where
  "nonspace_run s = takeWhile (\<lambda>c. \<not> is_space c) s"

text \<open>
  \<^verbatim>\<open>GENERIC_URL_RX = re.compile(r"https?://[^\s]+")\<close>. \<open>match_here\<close> is the match anchored
  at the first character: the scheme with or without the \<^verbatim>\<open>s\<close>, then the longest
  non-empty run of characters that are not white space. \<open>GENERIC_URL_RX_search\<close> is
  \<^verbatim>\<open>GENERIC_URL_RX.search(s)\<close> followed by \<^verbatim>\<open>m.group(0)\<close>: the leftmost match, \<open>None\<close>
  when there is none.
\<close>

definition match_here :: "string \<Rightarrow> string option" where
  "match_here s =
     (if startswith s ''https://'' \<and> nonspace_run (drop 8 s) \<noteq> []
      then Some (''https://'' @ nonspace_run (drop 8 s))
      else if startswith s ''http://'' \<and> nonspace_run (drop 7 s) \<noteq> []
      then Some (''http://'' @ nonspace_run (drop 7 s))
      else None)"

fun GENERIC_URL_RX_search :: "string \<Rightarrow> string option" where
  "GENERIC_URL_RX_search [] = None"
| "GENERIC_URL_RX_search (c # cs) =
     (case match_here (c # cs) of
        Some m \<Rightarrow> Some m
      | None \<Rightarrow> GENERIC_URL_RX_search cs)"

section \<open>The URL extractor\<close>

text \<open>
  The payload \<^verbatim>\<open>api_data\<close> is what \<^verbatim>\<open>json.loads\<close> returns, or the raw text. A \<^verbatim>\<open>dict\<close> is
  the list of its items in insertion order (the order \<^verbatim>\<open>values()\<close> iterates in); its
  keys are distinct, and \<open>dict_get\<close> is \<^verbatim>\<open>api_data.get(key)\<close>.
\<close>

datatype json =
    JNull
  | JBool bool
  | JNum int
  | JStr string
  | JList "json list"
  | JDict "(string \<times> json) list"

definition dict_get :: "(string \<times> json) list \<Rightarrow> string \<Rightarrow> json option" where
  "dict_get items k = map_of items k"

text \<open>Python's truth value of an \<^verbatim>\<open>Optional[str]\<close>: \<^verbatim>\<open>None\<close> and the empty string are false.\<close>

fun truthy :: "string option \<Rightarrow> bool" where
  "truthy None = False"
| "truthy (Some s) = (s \<noteq> [])"

text \<open>
  \<open>find_in\<close> is the nested function \<^verbatim>\<open>find\<close> of \<^verbatim>\<open>extract_url\<close> (lines 166 to 183). \<open>find_each\<close> is
  either of its two \<^verbatim>\<open>for v in ...: r = find(v); if r: return r\<close> loops, which fall
  through to \<^verbatim>\<open>return None\<close>.
\<close>

fun find_in :: "json \<Rightarrow> string option"
  and find_each :: "json list \<Rightarrow> string option"
  and find_values :: "(string \<times> json) list \<Rightarrow> string option" where
  "find_in (JStr s) =
     (if startswith s ''http'' then Some s
      else (case GENERIC_URL_RX_search s of Some m \<Rightarrow> Some m | None \<Rightarrow> None))"
| "find_in (JDict items) = find_values items"
| "find_in (JList vs) = find_each vs"
| "find_in JNull = None"
| "find_in (JBool b) = None"
| "find_in (JNum n) = None"
| "find_each [] = None"
| "find_each (v # vs) = (let r = find_in v in if truthy r then r else find_each vs)"
| "find_values [] = None"
| "find_values (kv # items) = (let r = find_in (snd kv) in if truthy r then r else find_values items)"

text \<open>The loop over the known field names (lines 161 to 164); \<open>None\<close> when it falls through.\<close>

definition known_fields :: "string list" where
  "known_fields = [''download'', ''url'', ''link'', ''download_url'']"

fun known_field_lookup :: "(string \<times> json) list \<Rightarrow> string list \<Rightarrow> string option" where
  "known_field_lookup items [] = None"
| "known_field_lookup items (key # keys) =
     (case dict_get items key of
        Some (JStr val) \<Rightarrow>
          (if startswith val ''http'' then Some val else known_field_lookup items keys)
      | _ \<Rightarrow> known_field_lookup items keys)"

fun extract_url :: "json \<Rightarrow> string option" where
  "extract_url (JStr s) = GENERIC_URL_RX_search s"
| "extract_url (JDict items) =
     (case known_field_lookup items known_fields of
        Some val \<Rightarrow> Some val
      | None \<Rightarrow> find_in (JDict items))"
| "extract_url JNull = None"
| "extract_url (JBool b) = None"
| "extract_url (JNum n) = None"
| "extract_url (JList vs) = None"

section \<open>The spooled buffer\<close>

text \<open>
  \<^verbatim>\<open>tempfile.SpooledTemporaryFile\<close> as the code uses it: the bytes held, the position of
  the next read or write, whether \<^verbatim>\<open>close()\<close> was called, the memory ceiling it was
  created with and whether it has rolled over to disk (the library rolls over after the
  first write that leaves the position above a non-zero ceiling). The backing is not
  observable through \<^verbatim>\<open>write\<close>, \<^verbatim>\<open>seek\<close> and \<^verbatim>\<open>read\<close>. \<open>write_to\<close> (the method \<^verbatim>\<open>write\<close>) and \<open>seek\<close> are called by
  the code only on a file it has not closed; \<open>read\<close> is the platform library reading the
  file to its end during an upload, and fails on a closed file.
\<close>

type_synonym byte = "8 word"

record spooled_file =
  content :: "byte list"
  pos :: nat
  closed :: bool
  spool_max :: int
  rolled :: bool

definition SpooledTemporaryFile :: "int \<Rightarrow> spooled_file" where
  "SpooledTemporaryFile max_size =
     \<lparr>content = [], pos = 0, closed = False, spool_max = max_size, rolled = False\<rparr>"

definition write_to :: "spooled_file \<Rightarrow> byte list \<Rightarrow> spooled_file" where
  "write_to f data =
     (let padded = content f @ replicate (pos f - length (content f)) 0;
          p = pos f + length data
      in f\<lparr>content := take (pos f) padded @ data @ drop p padded,
            pos := p,
            rolled := (rolled f \<or> (spool_max f \<noteq> 0 \<and> spool_max f < int p))\<rparr>)"

definition seek :: "spooled_file \<Rightarrow> nat \<Rightarrow> spooled_file" where
  "seek f n = f\<lparr>pos := n\<rparr>"

definition close :: "spooled_file \<Rightarrow> spooled_file" where
  "close f = f\<lparr>closed := True\<rparr>"

definition read :: "spooled_file \<Rightarrow> (byte list \<times> spooled_file) option" where
  "read f =
     (if closed f then None
      else Some (drop (pos f) (content f), f\<lparr>pos := max (pos f) (length (content f))\<rparr>))"

section \<open>The transfer engine\<close>

text \<open>
  The exceptions \<^verbatim>\<open>download_into_spooled_file\<close> can leave with: the three
  \<^verbatim>\<open>RuntimeError\<close>s it raises itself (lines 234, 237 and 258, with the numbers their
  messages carry) and a fault of the HTTP client.
\<close>

datatype error =
    DownloadFailedStatus int
  | FileTooLarge nat int
  | FileTooLargeDownloaded nat int
  | ClientError

text \<open>
  What \<^verbatim>\<open>session.get(url, timeout=timeout)\<close> yields: a fault, or a response with its
  status, its \<^verbatim>\<open>content_length\<close> (\<open>None\<close> when the header is absent), its
  \<^verbatim>\<open>content-type\<close> header (empty when absent), the file name that lines 238 to 248 derive
  from the \<^verbatim>\<open>content-disposition\<close> header and the final URL, and the body as
  \<^verbatim>\<open>iter_chunked\<close> delivers it: chunks, possibly ended by a fault. The end of the list is
  the end of the stream.
\<close>

datatype stream_item = Chunk "byte list" | StreamFault

record response =
  status :: int
  content_length :: "nat option"
  content_type :: string
  name_hint :: string
  body :: "stream_item list"

datatype http_get = ConnectFault | Response response

text \<open>A call \<^verbatim>\<open>status_edit_cb(percent, downloaded, total)\<close>.\<close>

type_synonym progress_event = "int \<times> nat \<times> nat"

definition percent_of :: "progress_event \<Rightarrow> int" where
  "percent_of ev = fst ev"

text \<open>
  Lines 259 to 262; \<open>total_size\<close> is the variable \<^verbatim>\<open>total\<close>, which is
  \<^verbatim>\<open>resp.content_length or 0\<close>. \<^verbatim>\<open>int(downloaded * 100 / total)\<close> truncates a float quotient; it
  is the integer quotient whenever \<^verbatim>\<open>downloaded * 100\<close> is below \<open>2^53\<close> (some 90 terabytes
  downloaded), the range this model covers.
\<close>

definition compute_percent :: "nat \<Rightarrow> nat \<Rightarrow> int" where
  "compute_percent downloaded total_size =
     (if total_size \<noteq> 0 then int (downloaded * 100 div total_size)
      else min 99 (int (downloaded div (1024 * 1024))))"

text \<open>The test of line 263.\<close>

definition should_emit :: "int \<Rightarrow> int \<Rightarrow> bool" where
  "should_emit percent last_percent =
     (percent \<noteq> last_percent \<and> (percent mod 2 = 0 \<or> percent = 0 \<or> percent = 100))"

text \<open>
  The loop of lines 252 to 268 over the items still to come, from the loop variables
  \<open>tmp\<close>, \<open>downloaded\<close> and \<open>last_percent\<close>. It returns the exception it left with if any,
  the file and the byte count at its end, the progress calls it made in order, and the
  number of items it took from the stream. An exception of the callback is swallowed
  (lines 264 to 267), so a call is recorded whether or not it raised.
\<close>

record loop_result =
  raised :: "error option"
  file_after :: spooled_file
  downloaded_after :: nat
  emitted :: "progress_event list"
  pulled :: nat

fun stream_loop ::
  "int \<Rightarrow> nat \<Rightarrow> stream_item list \<Rightarrow> spooled_file \<Rightarrow> nat \<Rightarrow> int \<Rightarrow> loop_result" where
  "stream_loop max_size total_size [] tmp downloaded last_percent =
     \<lparr>raised = None, file_after = tmp, downloaded_after = downloaded,
      emitted = [], pulled = 0\<rparr>"
| "stream_loop max_size total_size (StreamFault # rest) tmp downloaded last_percent =
     \<lparr>raised = Some ClientError, file_after = tmp, downloaded_after = downloaded,
      emitted = [], pulled = 1\<rparr>"
| "stream_loop max_size total_size (Chunk chunk # rest) tmp downloaded last_percent =
     (if chunk = [] then
        \<lparr>raised = None, file_after = tmp, downloaded_after = downloaded,
         emitted = [], pulled = 1\<rparr>
      else
        (let tmp' = write_to tmp chunk;
             downloaded' = downloaded + length chunk
         in if max_size \<noteq> 0 \<and> total_size = 0 \<and> max_size < int downloaded' then
              \<lparr>raised = Some (FileTooLargeDownloaded downloaded' max_size),
               file_after = tmp', downloaded_after = downloaded',
               emitted = [], pulled = 1\<rparr>
            else
              (let percent = compute_percent downloaded' total_size
               in if should_emit percent last_percent then
                    (let r = stream_loop max_size total_size rest tmp' downloaded' percent
                     in r\<lparr>emitted := (percent, downloaded', total_size) # emitted r,
                           pulled := Suc (pulled r)\<rparr>)
                  else
                    (let r = stream_loop max_size total_size rest tmp' downloaded' last_percent
                     in r\<lparr>pulled := Suc (pulled r)\<rparr>))))"

text \<open>
  \<^verbatim>\<open>download_into_spooled_file\<close>. The URL and the timeout stand behind \<open>get\<close>, the exchange
  that \<^verbatim>\<open>session.get\<close> performs. Besides what the function returns or raises
  (\<open>result\<close>), the outcome records the file object of line 228 as the function leaves it
  (\<open>tmp_file\<close>), the progress calls made and the number of stream items taken.
\<close>

type_synonym transfer_result = "spooled_file \<times> nat \<times> string option \<times> string"

record download_outcome =
  result :: "error + transfer_result"
  tmp_file :: spooled_file
  progress :: "progress_event list"
  items_read :: nat

definition download_into_spooled_file :: "http_get \<Rightarrow> int \<Rightarrow> int \<Rightarrow> download_outcome" where
  "download_into_spooled_file get spooled_limit_mb max_size =
     (let spooled_limit = spooled_limit_mb * 1024 * 1024;
          tmp = SpooledTemporaryFile spooled_limit
      in case get of
           ConnectFault \<Rightarrow>
             \<lparr>result = Inl ClientError, tmp_file = tmp, progress = [], items_read = 0\<rparr>
         | Response resp \<Rightarrow>
             if status resp \<noteq> 200 then
               \<lparr>result = Inl (DownloadFailedStatus (status resp)), tmp_file = tmp,
                progress = [], items_read = 0\<rparr>
             else
               (let total_size = (case content_length resp of None \<Rightarrow> 0 | Some n \<Rightarrow> n)
                in if max_size \<noteq> 0 \<and> total_size \<noteq> 0 \<and> max_size < int total_size then
                     \<lparr>result = Inl (FileTooLarge total_size max_size), tmp_file = tmp,
                      progress = [], items_read = 0\<rparr>
                   else
                     (let r = stream_loop max_size total_size (body resp) tmp 0 (- 1)
                      in case raised r of
                           Some e \<Rightarrow>
                             \<lparr>result = Inl e, tmp_file = file_after r,
                              progress = emitted r, items_read = pulled r\<rparr>
                         | None \<Rightarrow>
                             (let tmp' = seek (file_after r) 0;
                                  ctype = content_type resp
                              in \<lparr>result = Inr (tmp', downloaded_after r,
                                     (if ctype = [] then None else Some ctype),
                                     name_hint resp),
                                   tmp_file = tmp',
                                   progress = emitted r @ [(100, downloaded_after r, total_size)],
                                   items_read = pulled r\<rparr>))))"

section \<open>Delivery\<close>

text \<open>
  The messaging platform and the counter store are an environment \<open>env\<close> that decides,
  for each call the handler makes, whether it returns (\<open>True\<close>) or raises an
  \<^verbatim>\<open>Exception\<close> (\<open>False\<close>). An exception is the failure of a call, or the \<^verbatim>\<open>ValueError\<close>
  of reading a closed file. The status texts are those of \<^verbatim>\<open>text_handler\<close>; the two that
  interpolate an exception carry it. The handler's effects are logged in order: a call
  that returned, a call that raised, and for an upload that returned the bytes the
  platform library read from the file, from its position to its end. An upload that
  raises is taken to raise before it reads.
\<close>

datatype media = Video | Document

datatype chat = DumbChannel string | Requester

datatype status_text =
    CouldNotParse
  | Downloading progress_event
  | DownloadFailed error
  | UploadingToDumbChannel
  | CopyingToYou
  | DoneStoredAndDelivered
  | UploadingToYou
  | DoneUploaded
  | UploadFailed exn
and call =
    EditText status_text
  | SendMedia media chat
  | CopyMessage string
  | StatIncr string
and exn = CallFailed call | ClosedFile

datatype entry = Did call | Failed call | Sent media chat "byte list"

record world =
  the_file :: spooled_file
  log :: "entry list"

text \<open>A statement: from a state to the exception it raised, if any, and the state after.\<close>

type_synonym step = "world \<Rightarrow> exn option \<times> world"

definition attempt :: "(call \<Rightarrow> bool) \<Rightarrow> call \<Rightarrow> entry" where
  "attempt env c = (if env c then Did c else Failed c)"

definition outcome_of :: "(call \<Rightarrow> bool) \<Rightarrow> call \<Rightarrow> exn option" where
  "outcome_of env c = (if env c then None else Some (CallFailed c))"

definition perform :: "(call \<Rightarrow> bool) \<Rightarrow> call \<Rightarrow> step" where
  "perform env c w = (outcome_of env c, w\<lparr>log := log w @ [attempt env c]\<rparr>)"

text \<open>\<^verbatim>\<open>client.send_video\<close> and \<^verbatim>\<open>client.send_document\<close> on the spooled file.\<close>

definition send :: "(call \<Rightarrow> bool) \<Rightarrow> media \<Rightarrow> chat \<Rightarrow> step" where
  "send env m c w =
     (if env (SendMedia m c) then
        (case read (the_file w) of
           Some (bytes, f) \<Rightarrow> (None, w\<lparr>the_file := f, log := log w @ [Sent m c bytes]\<rparr>)
         | None \<Rightarrow> (Some ClosedFile, w\<lparr>log := log w @ [Failed (SendMedia m c)]\<rparr>))
      else (Some (CallFailed (SendMedia m c)), w\<lparr>log := log w @ [Failed (SendMedia m c)]\<rparr>))"

text \<open>\<^verbatim>\<open>spooled_file.seek(0)\<close>.\<close>

definition seek0 :: step where
  "seek0 w = (None, w\<lparr>the_file := seek (the_file w) 0\<rparr>)"

text \<open>Statements in sequence: the first that raises ends the block.\<close>

fun in_order :: "step list \<Rightarrow> step" where
  "in_order [] w = (None, w)"
| "in_order (s # ss) w =
     (case s w of
        (None, w') \<Rightarrow> in_order ss w'
      | (Some e, w') \<Rightarrow> (Some e, w'))"

text \<open>\<^verbatim>\<open>try: block except Exception as e: handler\<close>.\<close>

definition try_except :: "step \<Rightarrow> (exn \<Rightarrow> step) \<Rightarrow> step" where
  "try_except block handler w =
     (case block w of
        (None, w') \<Rightarrow> (None, w')
      | (Some e, w') \<Rightarrow> handler e w')"

text \<open>
  The body of the \<^verbatim>\<open>try\<close> of \<^verbatim>\<open>text_handler\<close>, lines 452 to 497. \<open>dc\<close> is
  \<^verbatim>\<open>db_get("dumb_channel")\<close>, and \<^verbatim>\<open>if dc\<close> holds for a non-empty string. The progress
  callbacks handed to the uploads only schedule status edits whose failures are swallowed;
  they are left out.
\<close>

definition upload :: "(call \<Rightarrow> bool) \<Rightarrow> string option \<Rightarrow> bool \<Rightarrow> step" where
  "upload env dc is_video =
     (let m = (if is_video then Video else Document)
      in if truthy dc then
           (let ch = (case dc of Some c \<Rightarrow> c | None \<Rightarrow> [])
            in in_order [seek0, perform env (EditText UploadingToDumbChannel),
                 send env m (DumbChannel ch),
                 perform env (EditText CopyingToYou),
                 try_except (perform env (CopyMessage ch))
                   (\<lambda>e. in_order [seek0, send env m Requester]),
                 perform env (StatIncr ''uploaded_files''),
                 perform env (EditText DoneStoredAndDelivered)])
         else
           in_order [seek0, perform env (EditText UploadingToYou), seek0,
             send env m Requester, perform env (StatIncr ''uploaded_files''),
             perform env (EditText DoneUploaded)])"

text \<open>
  Lines 449 to 505: the \<^verbatim>\<open>try\<close>, its \<^verbatim>\<open>except Exception as e\<close> clause, which edits the
  status to name \<^verbatim>\<open>e\<close> (an edit that may raise in its turn), and its \<^verbatim>\<open>finally\<close> clause,
  which closes the file.
\<close>

definition deliver :: "(call \<Rightarrow> bool) \<Rightarrow> string option \<Rightarrow> bool \<Rightarrow> step" where
  "deliver env dc is_video w =
     (case try_except (upload env dc is_video)
             (\<lambda>e. perform env (EditText (UploadFailed e))) w of
        (r, w') \<Rightarrow> (r, w'\<lparr>the_file := close (the_file w')\<rparr>))"

text \<open>
  Lines 439 to 445. \<open>splitext_ext\<close> is the second component of \<^verbatim>\<open>os.path.splitext\<close>: the
  last dot of the last path segment and what follows it, unless only dots precede it in
  that segment. \<open>lower\<close> lowers the letters A to Z, which is all that membership in the
  list of extensions depends on.
\<close>

definition splitext_ext :: "string \<Rightarrow> string" where
  "splitext_ext p =
     (let base = rev (takeWhile (\<lambda>c. c \<noteq> CHR ''/'') (rev p));
          after_dot = rev (takeWhile (\<lambda>c. c \<noteq> CHR ''.'') (rev base));
          stem = take (length base - length after_dot - 1) base
      in if CHR ''.'' \<in> set base \<and> \<not> list_all (\<lambda>c. c = CHR ''.'') stem
         then CHR ''.'' # after_dot else [])"

definition lower :: "string \<Rightarrow> string" where
  "lower s =
     map (\<lambda>c. let n = (of_char c :: nat)
               in if 65 \<le> n \<and> n \<le> 90 then char_of (n + 32) else c) s"

definition classify_video :: "string option \<Rightarrow> string \<Rightarrow> bool" where
  "classify_video ctype filename_hint =
     (if truthy ctype \<and> startswith (case ctype of Some t \<Rightarrow> t | None \<Rightarrow> []) ''video''
      then True
      else lower (splitext_ext filename_hint)
             \<in> set [''.mp4'', ''.mkv'', ''.mov'', ''.webm'', ''.ts''])"

text \<open>
  \<^verbatim>\<open>text_handler\<close> from line 403 on, with the resolver's payload \<open>api_data\<close> in hand. \<open>fetch\<close>
  is the HTTP exchange behind each URL, \<open>dc\<close> what \<^verbatim>\<open>db_get("dumb_channel")\<close> returned at
  line 448. The outcome gives the exception that left the
  handler (\<open>None\<close> when it returned), the spooled file this run created, as it is when the
  handler is left (\<open>None\<close> when none was created), and the effects in order. The
  download's progress callback edits the status and swallows a failure of that edit
  (lines 416 to 423).
\<close>

record handler_outcome =
  escaped :: "exn option"
  buffer :: "spooled_file option"
  effects :: "entry list"

definition text_handler ::
  "(call \<Rightarrow> bool) \<Rightarrow> (string \<Rightarrow> http_get) \<Rightarrow> int \<Rightarrow> int \<Rightarrow> string option \<Rightarrow> json
     \<Rightarrow> handler_outcome" where
  "text_handler env fetch TMP_SPOOL_LIMIT_MB MAX_FILE_SIZE dc api_data =
     (let direct = extract_url api_data
      in if \<not> truthy direct then
           \<lparr>escaped = outcome_of env (EditText CouldNotParse), buffer = None,
            effects = [attempt env (EditText CouldNotParse)]\<rparr>
         else if \<not> env (StatIncr ''resolved_links'') then
           \<lparr>escaped = Some (CallFailed (StatIncr ''resolved_links'')), buffer = None,
            effects = [Failed (StatIncr ''resolved_links'')]\<rparr>
         else
           (let url = (case direct of Some u \<Rightarrow> u | None \<Rightarrow> []);
                d = download_into_spooled_file (fetch url) TMP_SPOOL_LIMIT_MB MAX_FILE_SIZE;
                edits = map (\<lambda>ev. attempt env (EditText (Downloading ev))) (progress d);
                log1 = Did (StatIncr ''resolved_links'') # edits
            in case result d of
                 Inl e \<Rightarrow>
                   \<lparr>escaped = outcome_of env (EditText (DownloadFailed e)),
                    buffer = Some (tmp_file d),
                    effects = log1 @ [attempt env (EditText (DownloadFailed e))]\<rparr>
               | Inr (spooled_file, downloaded_bytes, ctype, filename_hint) \<Rightarrow>
                   (case deliver env dc (classify_video ctype filename_hint)
                           \<lparr>the_file = spooled_file, log = log1\<rparr> of
                      (r, w) \<Rightarrow>
                        \<lparr>escaped = r, buffer = Some (the_file w), effects = log w\<rparr>)))"

section \<open>Notions the properties are stated with\<close>

text \<open>
  The chunks the streaming loop writes when the size check does not stop it: those before
  the first empty chunk, the first fault or the end of the stream.
\<close>

fun chunks_written :: "stream_item list \<Rightarrow> byte list list" where
  "chunks_written [] = []"
| "chunks_written (StreamFault # rest) = []"
| "chunks_written (Chunk c # rest) = (if c = [] then [] else c # chunks_written rest)"

text \<open>The accumulated byte count after each of a list of chunks, from a starting count.\<close>

fun running_totals :: "nat \<Rightarrow> byte list list \<Rightarrow> nat list" where
  "running_totals n [] = []"
| "running_totals n (c # cs) = (n + length c) # running_totals (n + length c) cs"

text \<open>
  The limit lets the transfer through: there is none (\<open>N = 0\<close>), or the advertised content
  length is within it, or, with none advertised, the bytes written are.
\<close>

definition size_allowed :: "int \<Rightarrow> response \<Rightarrow> bool" where
  "size_allowed N resp =
     (N = 0 \<or>
      (case content_length resp of
         None \<Rightarrow> int (length (concat (chunks_written (body resp)))) \<le> N
       | Some t \<Rightarrow>
           if t = 0 then int (length (concat (chunks_written (body resp)))) \<le> N
           else int t \<le> N))"

text \<open>How many of a list of progress events carry a given percent.\<close>

definition count_percent :: "int \<Rightarrow> progress_event list \<Rightarrow> nat" where
  "count_percent p evs = length (filter (\<lambda>ev. percent_of ev = p) evs)"

text \<open>
  The search the specification describes for a nested payload: the string values of the
  payload depth first, a mapping's values in the order of its keys and a sequence's
  elements by index; a string qualifies when it starts with \<^verbatim>\<open>http\<close> or holds a match of
  the generic URL pattern. \<open>first_qualifying\<close> is the first qualifying string value,
  \<open>url_of\<close> what the code returns for it.
\<close>

fun strings_dfs :: "json \<Rightarrow> string list"
  and strings_dfs_each :: "json list \<Rightarrow> string list"
  and strings_dfs_values :: "(string \<times> json) list \<Rightarrow> string list" where
  "strings_dfs (JStr s) = [s]"
| "strings_dfs (JDict items) = strings_dfs_values items"
| "strings_dfs (JList vs) = strings_dfs_each vs"
| "strings_dfs JNull = []"
| "strings_dfs (JBool b) = []"
| "strings_dfs (JNum n) = []"
| "strings_dfs_each [] = []"
| "strings_dfs_each (v # vs) = strings_dfs v @ strings_dfs_each vs"
| "strings_dfs_values [] = []"
| "strings_dfs_values (kv # items) = strings_dfs (snd kv) @ strings_dfs_values items"

definition qualifies :: "string \<Rightarrow> bool" where
  "qualifies s = (startswith s ''http'' \<or> GENERIC_URL_RX_search s \<noteq> None)"

definition first_qualifying :: "json \<Rightarrow> string option" where
  "first_qualifying j = List.find qualifies (strings_dfs j)"

definition url_of :: "string \<Rightarrow> string" where
  "url_of s =
     (if startswith s ''http'' then s
      else (case GENERIC_URL_RX_search s of Some m \<Rightarrow> m | None \<Rightarrow> []))"

text \<open>The uploads to the requester among a list of effects, attempted or done.\<close>

fun to_requester :: "entry \<Rightarrow> bool" where
  "to_requester (Sent m c bytes) = (c = Requester)"
| "to_requester (Failed (SendMedia m c)) = (c = Requester)"
| "to_requester (Failed (EditText t)) = False"
| "to_requester (Failed (CopyMessage ch)) = False"
| "to_requester (Failed (StatIncr k)) = False"
| "to_requester (Did c) = False"

text \<open>The status edits that report a failed upload, attempted or done.\<close>

fun upload_failure_reports :: "entry list \<Rightarrow> exn list" where
  "upload_failure_reports [] = []"
| "upload_failure_reports (Did (EditText (UploadFailed e)) # es) = e # upload_failure_reports es"
| "upload_failure_reports (Failed (EditText (UploadFailed e)) # es) = e # upload_failure_reports es"
| "upload_failure_reports (x # es) = upload_failure_reports es"

section \<open>The spooled buffer and the streaming loop\<close>

lemma write_to_content:
  "pos f = length (content f) \<Longrightarrow> content (write_to f d) = content f @ d"
  by (simp add: write_to_def Let_def)

lemma write_to_pos:
  "pos f = length (content f) \<Longrightarrow> pos (write_to f d) = length (content (write_to f d))"
  by (simp add: write_to_def Let_def)

lemma closed_write_to: "closed (write_to f d) = closed f"
  by (simp add: write_to_def Let_def)

lemma fresh_file:
  "pos (SpooledTemporaryFile m) = length (content (SpooledTemporaryFile m))"
  "content (SpooledTemporaryFile m) = []"
  "closed (SpooledTemporaryFile m) = False"
  by (simp_all add: SpooledTemporaryFile_def)

text \<open>A loop that ends without an exception has appended exactly the chunks written.\<close>

lemma stream_loop_content:
  "pos tmp = length (content tmp) \<Longrightarrow>
   raised (stream_loop N t items tmp dl lp) = None \<Longrightarrow>
   content (file_after (stream_loop N t items tmp dl lp))
     = content tmp @ concat (chunks_written items)"
proof (induction items arbitrary: tmp dl lp)
  case Nil
  then show ?case by simp
next
  case (Cons it items)
  note IH = Cons.IH [OF write_to_pos [OF Cons.prems(1)]]
  show ?case
  proof (cases it)
    case StreamFault
    with Cons.prems show ?thesis by simp
  next
    case (Chunk c)
    with Cons.prems IH [of c] show ?thesis
      by (auto simp: Let_def write_to_content split: if_splits)
  qed
qed

lemma stream_loop_downloaded:
  "raised (stream_loop N t items tmp dl lp) = None \<Longrightarrow>
   downloaded_after (stream_loop N t items tmp dl lp)
     = dl + length (concat (chunks_written items))"
proof (induction items arbitrary: tmp dl lp)
  case Nil
  then show ?case by simp
next
  case (Cons it items)
  show ?case
  proof (cases it)
    case StreamFault
    with Cons.prems show ?thesis by simp
  next
    case (Chunk c)
    with Cons.prems Cons.IH [of "write_to tmp c" "dl + length c"] show ?thesis
      by (auto simp: Let_def split: if_splits)
  qed
qed

lemma stream_loop_closed:
  "closed (file_after (stream_loop N t items tmp dl lp)) = closed tmp"
proof (induction items arbitrary: tmp dl lp)
  case Nil
  then show ?case by simp
next
  case (Cons it items)
  then show ?case
    by (cases it) (auto simp: Let_def closed_write_to)
qed

text \<open>
  With no advertised length and a limit, the loop leaves with the size error at the first
  accumulated count above the limit, having taken no item after that chunk.
\<close>

lemma stream_loop_too_large:
  "0 < N \<Longrightarrow>
   (raised (stream_loop N 0 items tmp dl lp) = Some (FileTooLargeDownloaded k N))
     = (List.find (\<lambda>n. N < int n) (running_totals dl (chunks_written items)) = Some k)"
proof (induction items arbitrary: tmp dl lp)
  case Nil
  then show ?case by simp
next
  case (Cons it items)
  then show ?case
    by (cases it) (auto simp: Let_def)
qed

lemma stream_loop_too_large_pulled:
  "0 < N \<Longrightarrow>
   raised (stream_loop N 0 items tmp dl lp) = Some (FileTooLargeDownloaded k N) \<Longrightarrow>
   pulled (stream_loop N 0 items tmp dl lp)
     = Suc (length (takeWhile (\<lambda>n. \<not> N < int n) (running_totals dl (chunks_written items))))"
proof (induction items arbitrary: tmp dl lp)
  case Nil
  then show ?case by simp
next
  case (Cons it items)
  then show ?case
    by (cases it) (auto simp: Let_def split: if_splits)
qed

lemma stream_loop_too_large_content:
  "0 < N \<Longrightarrow> pos tmp = length (content tmp) \<Longrightarrow>
   raised (stream_loop N 0 items tmp dl lp) = Some (FileTooLargeDownloaded k N) \<Longrightarrow>
   content (file_after (stream_loop N 0 items tmp dl lp))
     = content tmp
         @ concat (take (pulled (stream_loop N 0 items tmp dl lp)) (chunks_written items))"
proof (induction items arbitrary: tmp dl lp)
  case Nil
  then show ?case by simp
next
  case (Cons it items)
  note IH = Cons.IH [OF Cons.prems(1) write_to_pos [OF Cons.prems(2)]]
  show ?case
  proof (cases it)
    case StreamFault
    with Cons.prems show ?thesis by simp
  next
    case (Chunk c)
    with Cons.prems IH [of c] show ?thesis
      by (auto simp: Let_def write_to_content split: if_splits)
  qed
qed

text \<open>With an advertised length the loop never leaves with the size error.\<close>

lemma stream_loop_no_limit_when_total:
  "t \<noteq> 0 \<Longrightarrow> raised (stream_loop N t items tmp dl lp) \<noteq> Some (FileTooLargeDownloaded k M)"
proof (induction items arbitrary: tmp dl lp)
  case Nil
  then show ?case by simp
next
  case (Cons it items)
  then show ?case
    by (cases it) (auto simp: Let_def)
qed

lemma stream_loop_no_fault:
  "t \<noteq> 0 \<Longrightarrow> StreamFault \<notin> set items \<Longrightarrow> raised (stream_loop N t items tmp dl lp) = None"
proof (induction items arbitrary: tmp dl lp)
  case Nil
  then show ?case by simp
next
  case (Cons it items)
  then show ?case
    by (cases it) (auto simp: Let_def)
qed

text \<open>A stream without a fault, under a limit that lets it through, ends the loop normally.\<close>

lemma stream_loop_succeeds:
  "StreamFault \<notin> set items \<Longrightarrow>
   N = 0 \<or> t \<noteq> 0 \<or> int (dl + length (concat (chunks_written items))) \<le> N \<Longrightarrow>
   raised (stream_loop N t items tmp dl lp) = None"
proof (induction items arbitrary: tmp dl lp)
  case Nil
  then show ?case by simp
next
  case (Cons it items)
  show ?case
  proof (cases it)
    case StreamFault
    with Cons.prems show ?thesis by simp
  next
    case (Chunk c)
    show ?thesis
    proof (cases "c = []")
      case True
      with Chunk show ?thesis by simp
    next
      case False
      from Cons.prems(2) Chunk False
      have lim: "N = 0 \<or> t \<noteq> 0
          \<or> int ((dl + length c) + length (concat (chunks_written items))) \<le> N"
        by (simp add: add.assoc)
      then have nocheck: "\<not> (N \<noteq> 0 \<and> t = 0 \<and> N < int (dl + length c))" by auto
      from Cons.prems(1) have nf: "StreamFault \<notin> set items" by simp
      note IH = Cons.IH [OF nf lim]
      show ?thesis
      proof (cases "N \<noteq> 0 \<and> t = 0 \<and> N < int (dl + length c)")
        case True
        with nocheck show ?thesis by simp
      next
        case no: False
        with Chunk False IH show ?thesis by (simp add: Let_def)
      qed
    qed
  qed
qed

section \<open>Properties of the transfer engine\<close>

lemma download_success_loop:
  assumes "result (download_into_spooled_file (Response resp) mb N) = Inr (f, n, ct, nm)"
  shows "\<exists>t. raised (stream_loop N t (body resp) (SpooledTemporaryFile (mb * 1024 * 1024)) 0 (- 1)) = None
    \<and> f = seek (file_after
          (stream_loop N t (body resp) (SpooledTemporaryFile (mb * 1024 * 1024)) 0 (- 1))) 0
    \<and> n = downloaded_after
          (stream_loop N t (body resp) (SpooledTemporaryFile (mb * 1024 * 1024)) 0 (- 1))"
  using assms
  by (auto simp: download_into_spooled_file_def Let_def split: if_splits option.splits)

text \<open>
  The engine does return: on a response with status 200 whose stream has no fault, under
  a limit that lets the transfer through, it returns the count of the bytes written, the
  content type if any and the file name.
\<close>

lemma download_succeeds:
  assumes "status resp = 200" and "StreamFault \<notin> set (body resp)" and "size_allowed N resp"
  shows "\<exists>f. result (download_into_spooled_file (Response resp) mb N)
      = Inr (f, length (concat (chunks_written (body resp))),
             (if content_type resp = [] then None else Some (content_type resp)),
             name_hint resp)"
proof -
  let ?t = "case content_length resp of None \<Rightarrow> 0 | Some n \<Rightarrow> n"
  let ?r = "stream_loop N ?t (body resp) (SpooledTemporaryFile (mb * 1024 * 1024)) 0 (- 1)"
  from assms(3) have eager: "\<not> (N \<noteq> 0 \<and> ?t \<noteq> 0 \<and> N < int ?t)"
    by (auto simp: size_allowed_def split: option.splits if_splits)
  from assms(3) have "N = 0 \<or> ?t \<noteq> 0
      \<or> int (0 + length (concat (chunks_written (body resp)))) \<le> N"
    by (auto simp: size_allowed_def split: option.splits if_splits)
  from stream_loop_succeeds [OF assms(2) this] have ok: "raised ?r = None" .
  from stream_loop_downloaded [OF ok]
  have n: "downloaded_after ?r = length (concat (chunks_written (body resp)))" by simp
  show ?thesis
  proof (cases "N \<noteq> 0 \<and> ?t \<noteq> 0 \<and> N < int ?t")
    case True
    with eager show ?thesis by simp
  next
    case False
    with assms(1) ok n show ?thesis
      by (simp add: download_into_spooled_file_def Let_def)
  qed
qed

text \<open>
  No path of the engine closes the file it created at line 228, whether it returns or
  raises.
\<close>

lemma engine_never_closes:
  "\<not> closed (tmp_file (download_into_spooled_file g mb N))"
proof (cases g)
  case ConnectFault
  then show ?thesis by (simp add: download_into_spooled_file_def fresh_file(3))
next
  case (Response resp)
  let ?t = "case content_length resp of None \<Rightarrow> 0 | Some n \<Rightarrow> n"
  let ?r = "stream_loop N ?t (body resp) (SpooledTemporaryFile (mb * 1024 * 1024)) 0 (- 1)"
  show ?thesis
  proof (cases "status resp \<noteq> 200 \<or> (N \<noteq> 0 \<and> ?t \<noteq> 0 \<and> N < int ?t)")
    case True
    with Response show ?thesis
      by (auto simp: download_into_spooled_file_def Let_def fresh_file(3))
  next
    case False
    with Response show ?thesis
      by (cases "raised ?r")
        (simp_all add: download_into_spooled_file_def Let_def seek_def stream_loop_closed
          fresh_file(3))
  qed
qed

text \<open>
  C5. With a limit \<open>N > 0\<close> and an advertised content length above \<open>N\<close>, a transfer whose
  response has status 200 fails with the size error of line 237 before it takes any item
  from the body: nothing is written to the buffer and no progress call is made.
\<close>

theorem declared_size_over_limit_fails_before_reading:
  assumes "0 < N" and "status resp = 200"
    and "content_length resp = Some n" and "N < int n"
  shows "result (download_into_spooled_file (Response resp) mb N) = Inl (FileTooLarge n N)
    \<and> items_read (download_into_spooled_file (Response resp) mb N) = 0
    \<and> content (tmp_file (download_into_spooled_file (Response resp) mb N)) = []
    \<and> progress (download_into_spooled_file (Response resp) mb N) = []"
  using assms by (auto simp: download_into_spooled_file_def SpooledTemporaryFile_def Let_def)

theorem declared_size_over_limit_witness:
  "result (download_into_spooled_file
      (Response \<lparr>status = 200, content_length = Some 11, content_type = ''video/mp4'',
        name_hint = ''a.mp4'', body = [Chunk [1, 2, 3]]\<rparr>) 16 10) = Inl (FileTooLarge 11 10)
   \<and> items_read (download_into_spooled_file
      (Response \<lparr>status = 200, content_length = Some 11, content_type = ''video/mp4'',
        name_hint = ''a.mp4'', body = [Chunk [1, 2, 3]]\<rparr>) 16 10) = 0"
  using declared_size_over_limit_fails_before_reading
    [of 10 "\<lparr>status = 200, content_length = Some 11, content_type = ''video/mp4'',
        name_hint = ''a.mp4'', body = [Chunk [1, 2, 3]]\<rparr>" 11 16]
  by simp

text \<open>
  The reactive limit. With a limit \<open>N > 0\<close> and no advertised content length (absent, or
  zero, which the code treats alike), a transfer whose response has status 200 fails with
  the size error of line 258 carrying the count \<open>k\<close> exactly when \<open>k\<close> is the first
  accumulated byte count above \<open>N\<close>, counted after each chunk written. It then has taken
  no item after that chunk, and the file holds the chunks up to it.
\<close>

theorem reactive_limit_fails_at_first_excess:
  assumes "0 < N" and "status resp = 200"
    and "content_length resp = None \<or> content_length resp = Some 0"
  shows "((result (download_into_spooled_file (Response resp) mb N)
            = Inl (FileTooLargeDownloaded k N))
        = (List.find (\<lambda>n. N < int n) (running_totals 0 (chunks_written (body resp))) = Some k))
    \<and> (List.find (\<lambda>n. N < int n) (running_totals 0 (chunks_written (body resp))) = Some k \<longrightarrow>
         items_read (download_into_spooled_file (Response resp) mb N)
           = Suc (length (takeWhile (\<lambda>n. \<not> N < int n)
               (running_totals 0 (chunks_written (body resp)))))
         \<and> content (tmp_file (download_into_spooled_file (Response resp) mb N))
           = concat (take (items_read (download_into_spooled_file (Response resp) mb N))
               (chunks_written (body resp))))"
proof -
  let ?r = "stream_loop N 0 (body resp) (SpooledTemporaryFile (mb * 1024 * 1024)) 0 (- 1)"
  let ?d = "download_into_spooled_file (Response resp) mb N"
  let ?first = "List.find (\<lambda>n. N < int n) (running_totals 0 (chunks_written (body resp)))"
  have loop: "(raised ?r = Some (FileTooLargeDownloaded k N)) = (?first = Some k)"
    by (rule stream_loop_too_large [OF assms(1)])
  have d: "result ?d = (case raised ?r of Some e \<Rightarrow> Inl e | None \<Rightarrow> result ?d)"
    "tmp_file ?d = (case raised ?r of Some e \<Rightarrow> file_after ?r | None \<Rightarrow> tmp_file ?d)"
    "items_read ?d = pulled ?r"
    using assms
    by (auto simp: download_into_spooled_file_def Let_def split: option.splits)
  have a: "(result ?d = Inl (FileTooLargeDownloaded k N)) = (?first = Some k)"
  proof (cases "raised ?r")
    case None
    with loop have "?first \<noteq> Some k" by simp
    moreover from assms(3) have "(case content_length resp of None \<Rightarrow> 0 | Some n \<Rightarrow> n) = 0"
      by auto
    with None assms(2) have "\<exists>x. result ?d = Inr x"
      by (simp add: download_into_spooled_file_def Let_def)
    ultimately show ?thesis by auto
  next
    case (Some e)
    with d(1) loop show ?thesis by auto
  qed
  have b: "items_read ?d = Suc (length (takeWhile (\<lambda>n. \<not> N < int n)
               (running_totals 0 (chunks_written (body resp)))))
         \<and> content (tmp_file ?d) = concat (take (items_read ?d) (chunks_written (body resp)))"
    if "?first = Some k"
  proof -
    from that loop have r: "raised ?r = Some (FileTooLargeDownloaded k N)" by simp
    from stream_loop_too_large_pulled [OF assms(1) r]
      stream_loop_too_large_content [OF assms(1) fresh_file(1) r] d(2,3) r
    show ?thesis by (simp add: fresh_file(2))
  qed
  from a b show ?thesis by blast
qed

theorem reactive_limit_witness:
  "result (download_into_spooled_file
      (Response \<lparr>status = 200, content_length = None, content_type = [],
        name_hint = ''f.bin'', body = [Chunk [1, 2], Chunk [3, 4], Chunk [5]]\<rparr>) 16 3)
     = Inl (FileTooLargeDownloaded 4 3)
   \<and> items_read (download_into_spooled_file
      (Response \<lparr>status = 200, content_length = None, content_type = [],
        name_hint = ''f.bin'', body = [Chunk [1, 2], Chunk [3, 4], Chunk [5]]\<rparr>) 16 3) = 2
   \<and> content (tmp_file (download_into_spooled_file
      (Response \<lparr>status = 200, content_length = None, content_type = [],
        name_hint = ''f.bin'', body = [Chunk [1, 2], Chunk [3, 4], Chunk [5]]\<rparr>) 16 3))
     = [1, 2, 3, 4]"
proof -
  have first: "List.find (\<lambda>n. 3 < int n)
      (running_totals 0 (chunks_written [Chunk [1, 2], Chunk [3, 4], Chunk [5 :: byte]])) = Some 4"
    by simp
  show ?thesis
    using first reactive_limit_fails_at_first_excess
      [of 3 "\<lparr>status = 200, content_length = None, content_type = [],
        name_hint = ''f.bin'', body = [Chunk [1, 2], Chunk [3, 4], Chunk [5]]\<rparr>" 16 4]
    by simp
qed


text \<open>
  C9. With an advertised content length \<open>n > 0\<close> that does not exceed the limit, the
  transfer never leaves with the size error of line 258, and when the stream has no fault
  it succeeds with the count of all bytes written, whatever that count is: more bytes
  than advertised, and more than the limit, go through.
\<close>

theorem advertised_length_disables_reactive_check:
  assumes "status resp = 200" and "content_length resp = Some n" and "0 < n" and "int n \<le> N"
  shows "result (download_into_spooled_file (Response resp) mb N)
           \<noteq> Inl (FileTooLargeDownloaded k M)
    \<and> (StreamFault \<notin> set (body resp) \<longrightarrow>
         (\<exists>f ct nm. result (download_into_spooled_file (Response resp) mb N)
            = Inr (f, length (concat (chunks_written (body resp))), ct, nm)))"
proof -
  let ?r = "stream_loop N n (body resp) (SpooledTemporaryFile (mb * 1024 * 1024)) 0 (- 1)"
  from assms have n0: "n \<noteq> 0" by simp
  have a: "result (download_into_spooled_file (Response resp) mb N)
             \<noteq> Inl (FileTooLargeDownloaded k M)"
    using assms stream_loop_no_limit_when_total [OF n0, of N "body resp" _ 0 "- 1" k M]
    by (auto simp: download_into_spooled_file_def Let_def split: option.splits)
  have b: "\<exists>f ct nm. result (download_into_spooled_file (Response resp) mb N)
            = Inr (f, length (concat (chunks_written (body resp))), ct, nm)"
    if nf: "StreamFault \<notin> set (body resp)"
  proof -
    have ok: "raised ?r = None" by (rule stream_loop_no_fault [OF n0 nf])
    from stream_loop_downloaded [OF ok] ok assms show ?thesis
      by (simp add: download_into_spooled_file_def Let_def)
  qed
  from a b show ?thesis by blast
qed

theorem advertised_length_witness:
  "\<exists>f ct nm. result (download_into_spooled_file
      (Response \<lparr>status = 200, content_length = Some 2, content_type = [],
        name_hint = ''f.bin'', body = [Chunk [1, 2], Chunk [3, 4], Chunk [5]]\<rparr>) 16 3)
     = Inr (f, 5, ct, nm)"
  using advertised_length_disables_reactive_check
    [of "\<lparr>status = 200, content_length = Some 2, content_type = [],
        name_hint = ''f.bin'', body = [Chunk [1, 2], Chunk [3, 4], Chunk [5]]\<rparr>" 2 3 16 0 0]
  by (simp add: eval_nat_numeral)

text \<open>
  C10. For every successful transfer the byte count returned is the length of the
  returned buffer's content, which is the chunks written one after the other; so the
  count is the sum of their lengths, whatever content length was advertised. And the
  engine does succeed so: on a response with status 200 whose stream has no fault, under
  a limit that lets the transfer through, it returns that sum with a buffer holding
  those chunks.
\<close>

theorem returned_total_is_buffer_length:
  "(result (download_into_spooled_file (Response resp) mb N) = Inr (f, n, ct, nm) \<longrightarrow>
      n = length (content f)
      \<and> content f = concat (chunks_written (body resp))
      \<and> n = sum_list (map length (chunks_written (body resp))))
   \<and> (status resp = 200 \<and> StreamFault \<notin> set (body resp) \<and> size_allowed N resp \<longrightarrow>
        (\<exists>g. result (download_into_spooled_file (Response resp) mb N)
            = Inr (g, sum_list (map length (chunks_written (body resp))),
                   (if content_type resp = [] then None else Some (content_type resp)),
                   name_hint resp)
          \<and> content g = concat (chunks_written (body resp))))"
proof -
  have a: "n = length (content f)
      \<and> content f = concat (chunks_written (body resp))
      \<and> n = sum_list (map length (chunks_written (body resp)))"
    if r: "result (download_into_spooled_file (Response resp) mb N) = Inr (f, n, ct, nm)"
    for f n ct nm
  proof -
    from download_success_loop [OF r] obtain t where
      ok: "raised (stream_loop N t (body resp) (SpooledTemporaryFile (mb * 1024 * 1024)) 0 (- 1)) = None"
      and f: "f = seek (file_after
            (stream_loop N t (body resp) (SpooledTemporaryFile (mb * 1024 * 1024)) 0 (- 1))) 0"
      and n: "n = downloaded_after
            (stream_loop N t (body resp) (SpooledTemporaryFile (mb * 1024 * 1024)) 0 (- 1))"
      by blast
    have c: "content f = concat (chunks_written (body resp))"
      using stream_loop_content [OF fresh_file(1) ok] f by (simp add: seek_def fresh_file(2))
    have d: "n = length (concat (chunks_written (body resp)))"
      using stream_loop_downloaded [OF ok] n by simp
    from c d show ?thesis by (simp add: length_concat)
  qed
  have b: "\<exists>g. result (download_into_spooled_file (Response resp) mb N)
            = Inr (g, sum_list (map length (chunks_written (body resp))),
                   (if content_type resp = [] then None else Some (content_type resp)),
                   name_hint resp)
          \<and> content g = concat (chunks_written (body resp))"
    if "status resp = 200" and "StreamFault \<notin> set (body resp)" and "size_allowed N resp"
  proof -
    from download_succeeds [OF that] obtain g where
      g: "result (download_into_spooled_file (Response resp) mb N)
        = Inr (g, length (concat (chunks_written (body resp))),
             (if content_type resp = [] then None else Some (content_type resp)),
             name_hint resp)"
      by blast
    from a [OF g] have "content g = concat (chunks_written (body resp))" by simp
    with g show ?thesis by (simp add: length_concat)
  qed
  show ?thesis
  proof (rule conjI; rule impI)
    assume "result (download_into_spooled_file (Response resp) mb N) = Inr (f, n, ct, nm)"
    then show "n = length (content f)
      \<and> content f = concat (chunks_written (body resp))
      \<and> n = sum_list (map length (chunks_written (body resp)))"
      by (rule a)
  next
    assume "status resp = 200 \<and> StreamFault \<notin> set (body resp) \<and> size_allowed N resp"
    then show "\<exists>g. result (download_into_spooled_file (Response resp) mb N)
            = Inr (g, sum_list (map length (chunks_written (body resp))),
                   (if content_type resp = [] then None else Some (content_type resp)),
                   name_hint resp)
          \<and> content g = concat (chunks_written (body resp))"
      using b by simp
  qed
qed

theorem returned_total_witness:
  "result (download_into_spooled_file
      (Response \<lparr>status = 200, content_length = Some 5, content_type = [],
        name_hint = ''f.bin'', body = [Chunk [7, 8], Chunk [9], Chunk [], Chunk [1]]\<rparr>) 16 0)
     = Inr (\<lparr>content = [7, 8, 9], pos = 0, closed = False, spool_max = 16777216,
              rolled = False\<rparr>, 3, None, ''f.bin'')
   \<and> (case result (download_into_spooled_file
      (Response \<lparr>status = 200, content_length = Some 5, content_type = [],
        name_hint = ''f.bin'', body = [Chunk [7, 8], Chunk [9], Chunk [], Chunk [1]]\<rparr>) 16 0) of
        Inl e \<Rightarrow> False
      | Inr (f, n, ct, nm) \<Rightarrow>
          n = length (content f) \<and> content f = [7, 8, 9]
          \<and> n = sum_list (map length [[7, 8], [9 :: byte]]))"
proof -
  have r: "result (download_into_spooled_file
      (Response \<lparr>status = 200, content_length = Some 5, content_type = [],
        name_hint = ''f.bin'', body = [Chunk [7, 8], Chunk [9], Chunk [], Chunk [1]]\<rparr>) 16 0)
     = Inr (\<lparr>content = [7, 8, 9], pos = 0, closed = False, spool_max = 16777216,
              rolled = False\<rparr>, 3, None, ''f.bin'')"
    by (simp add: download_into_spooled_file_def SpooledTemporaryFile_def Let_def write_to_def
        seek_def compute_percent_def should_emit_def)
  from returned_total_is_buffer_length
    [of "\<lparr>status = 200, content_length = Some 5, content_type = [],
        name_hint = ''f.bin'', body = [Chunk [7, 8], Chunk [9], Chunk [], Chunk [1]]\<rparr>" 16 0
      "\<lparr>content = [7, 8, 9], pos = 0, closed = False, spool_max = 16777216, rolled = False\<rparr>"
      3 None "''f.bin''"] r
  show ?thesis by simp
qed

text \<open>
  C7. The buffer a successful transfer returns has its position at 0, and seeking it to 0
  and reading it to the end, twice in succession, yields both times the full sequence
  of the bytes written. And the engine does return such a buffer: on a response with
  status 200 whose stream has no fault, under a limit that lets the transfer through.
\<close>

theorem returned_buffer_rereadable:
  "(result (download_into_spooled_file (Response resp) mb N) = Inr (f, n, ct, nm) \<longrightarrow>
      pos f = 0
      \<and> read (seek f 0)
          = Some (concat (chunks_written (body resp)), f\<lparr>pos := length (content f)\<rparr>)
      \<and> read (seek (f\<lparr>pos := length (content f)\<rparr>) 0)
          = Some (concat (chunks_written (body resp)), f\<lparr>pos := length (content f)\<rparr>))
   \<and> (status resp = 200 \<and> StreamFault \<notin> set (body resp) \<and> size_allowed N resp \<longrightarrow>
        (\<exists>g k ct' nm'. result (download_into_spooled_file (Response resp) mb N)
            = Inr (g, k, ct', nm')
          \<and> pos g = 0
          \<and> read (seek g 0)
              = Some (concat (chunks_written (body resp)), g\<lparr>pos := length (content g)\<rparr>)
          \<and> read (seek (g\<lparr>pos := length (content g)\<rparr>) 0)
              = Some (concat (chunks_written (body resp)), g\<lparr>pos := length (content g)\<rparr>)))"
proof -
  have a: "pos f = 0
      \<and> read (seek f 0)
          = Some (concat (chunks_written (body resp)), f\<lparr>pos := length (content f)\<rparr>)
      \<and> read (seek (f\<lparr>pos := length (content f)\<rparr>) 0)
          = Some (concat (chunks_written (body resp)), f\<lparr>pos := length (content f)\<rparr>)"
    if r: "result (download_into_spooled_file (Response resp) mb N) = Inr (f, n, ct, nm)"
    for f n ct nm
  proof -
    from download_success_loop [OF r] obtain t where
      ok: "raised (stream_loop N t (body resp) (SpooledTemporaryFile (mb * 1024 * 1024)) 0 (- 1)) = None"
      and f: "f = seek (file_after
            (stream_loop N t (body resp) (SpooledTemporaryFile (mb * 1024 * 1024)) 0 (- 1))) 0"
      by blast
    have c: "content f = concat (chunks_written (body resp))"
      using stream_loop_content [OF fresh_file(1) ok] f by (simp add: seek_def fresh_file(2))
    have o: "\<not> closed f"
      using f by (simp add: seek_def stream_loop_closed fresh_file(3))
    have p: "pos f = 0" using f by (simp add: seek_def)
    from c o p show ?thesis by (simp add: read_def seek_def)
  qed
  have b: "\<exists>g k ct' nm'. result (download_into_spooled_file (Response resp) mb N)
            = Inr (g, k, ct', nm')
          \<and> pos g = 0
          \<and> read (seek g 0)
              = Some (concat (chunks_written (body resp)), g\<lparr>pos := length (content g)\<rparr>)
          \<and> read (seek (g\<lparr>pos := length (content g)\<rparr>) 0)
              = Some (concat (chunks_written (body resp)), g\<lparr>pos := length (content g)\<rparr>)"
    if "status resp = 200" and "StreamFault \<notin> set (body resp)" and "size_allowed N resp"
  proof -
    from download_succeeds [OF that] obtain g where
      g: "result (download_into_spooled_file (Response resp) mb N)
        = Inr (g, length (concat (chunks_written (body resp))),
             (if content_type resp = [] then None else Some (content_type resp)),
             name_hint resp)"
      by blast
    from a [OF g] g show ?thesis by blast
  qed
  show ?thesis
  proof (rule conjI; rule impI)
    assume "result (download_into_spooled_file (Response resp) mb N) = Inr (f, n, ct, nm)"
    then show "pos f = 0
      \<and> read (seek f 0)
          = Some (concat (chunks_written (body resp)), f\<lparr>pos := length (content f)\<rparr>)
      \<and> read (seek (f\<lparr>pos := length (content f)\<rparr>) 0)
          = Some (concat (chunks_written (body resp)), f\<lparr>pos := length (content f)\<rparr>)"
      by (rule a)
  next
    assume "status resp = 200 \<and> StreamFault \<notin> set (body resp) \<and> size_allowed N resp"
    then show "\<exists>g k ct' nm'. result (download_into_spooled_file (Response resp) mb N)
            = Inr (g, k, ct', nm')
          \<and> pos g = 0
          \<and> read (seek g 0)
              = Some (concat (chunks_written (body resp)), g\<lparr>pos := length (content g)\<rparr>)
          \<and> read (seek (g\<lparr>pos := length (content g)\<rparr>) 0)
              = Some (concat (chunks_written (body resp)), g\<lparr>pos := length (content g)\<rparr>)"
      using b by simp
  qed
qed

theorem returned_buffer_witness:
  "result (download_into_spooled_file
      (Response \<lparr>status = 200, content_length = None, content_type = ''video/mp4'',
        name_hint = ''f.mp4'', body = [Chunk [7, 8], Chunk [9]]\<rparr>) 16 0)
     = Inr (\<lparr>content = [7, 8, 9], pos = 0, closed = False, spool_max = 16777216,
              rolled = False\<rparr>, 3, Some ''video/mp4'', ''f.mp4'')
   \<and> (case result (download_into_spooled_file
      (Response \<lparr>status = 200, content_length = None, content_type = ''video/mp4'',
        name_hint = ''f.mp4'', body = [Chunk [7, 8], Chunk [9]]\<rparr>) 16 0) of
        Inl e \<Rightarrow> False
      | Inr (f, n, ct, nm) \<Rightarrow>
          pos f = 0
          \<and> read (seek f 0) = Some ([7, 8, 9], f\<lparr>pos := 3\<rparr>)
          \<and> read (seek (f\<lparr>pos := 3\<rparr>) 0) = Some ([7, 8, 9], f\<lparr>pos := 3\<rparr>))"
proof -
  have r: "result (download_into_spooled_file
      (Response \<lparr>status = 200, content_length = None, content_type = ''video/mp4'',
        name_hint = ''f.mp4'', body = [Chunk [7, 8], Chunk [9]]\<rparr>) 16 0)
     = Inr (\<lparr>content = [7, 8, 9], pos = 0, closed = False, spool_max = 16777216,
              rolled = False\<rparr>, 3, Some ''video/mp4'', ''f.mp4'')"
    by (simp add: download_into_spooled_file_def SpooledTemporaryFile_def Let_def write_to_def
        seek_def compute_percent_def should_emit_def)
  from returned_buffer_rereadable
    [of "\<lparr>status = 200, content_length = None, content_type = ''video/mp4'',
        name_hint = ''f.mp4'', body = [Chunk [7, 8], Chunk [9]]\<rparr>" 16 0
      "\<lparr>content = [7, 8, 9], pos = 0, closed = False, spool_max = 16777216, rolled = False\<rparr>"
      3 "Some ''video/mp4''" "''f.mp4''"] r
  show ?thesis by (simp add: eval_nat_numeral)
qed

section \<open>Properties of the URL extractor\<close>

lemma known_field_lookup_first:
  assumes "dict_get items key = Some (JStr val)" and "startswith val ''http''"
    and "\<forall>k \<in> set before. \<forall>v. dict_get items k = Some (JStr v) \<longrightarrow> \<not> startswith v ''http''"
  shows "known_field_lookup items (before @ key # after) = Some val"
  using assms
  by (induction before) (auto split: option.splits json.splits)

lemma known_field_lookup_none:
  assumes "\<forall>k \<in> set keys. \<forall>v. dict_get items k = Some (JStr v) \<longrightarrow> \<not> startswith v ''http''"
  shows "known_field_lookup items keys = None"
  using assms
  by (induction keys) (auto split: option.splits json.splits)

text \<open>
  C6. When a known field holds a string starting with \<^verbatim>\<open>http\<close> and no known field before it
  in the order \<^verbatim>\<open>download\<close>, \<^verbatim>\<open>url\<close>, \<^verbatim>\<open>link\<close>, \<^verbatim>\<open>download_url\<close> does, extraction from the
  mapping returns that field's value, whatever the later known fields and the rest of
  the payload hold.
\<close>

theorem extract_url_known_field_precedence:
  assumes "known_fields = before @ key # after"
    and "dict_get items key = Some (JStr val)" and "startswith val ''http''"
    and "\<forall>k \<in> set before. \<forall>v. dict_get items k = Some (JStr v) \<longrightarrow> \<not> startswith v ''http''"
  shows "extract_url (JDict items) = Some val"
  using known_field_lookup_first [OF assms(2,3,4), of after] assms(1) by simp

theorem extract_url_known_field_witness:
  "extract_url (JDict [(''link'', JStr ''http://b''), (''url'', JStr ''ftp://x''),
      (''download_url'', JStr ''http://c''), (''download'', JNum 1),
      (''other'', JStr ''http://a'')]) = Some ''http://b''"
proof -
  have "known_fields = [''download'', ''url''] @ ''link'' # [''download_url'']"
    by (simp add: known_fields_def)
  from extract_url_known_field_precedence [OF this, of _ "''http://b''"]
  show ?thesis by (simp add: dict_get_def startswith_def)
qed

lemma match_here_nonempty: "match_here s = Some m \<Longrightarrow> m \<noteq> []"
  by (auto simp: match_here_def split: if_splits)

lemma search_nonempty: "GENERIC_URL_RX_search s = Some m \<Longrightarrow> m \<noteq> []"
  by (induction s) (auto split: option.splits dest: match_here_nonempty)

lemma startswith_http_nonempty: "startswith s ''http'' \<Longrightarrow> s \<noteq> []"
  by (auto simp: startswith_def)

lemma url_of_nonempty: "qualifies s \<Longrightarrow> url_of s \<noteq> []"
  by (auto simp: qualifies_def url_of_def dest: search_nonempty startswith_http_nonempty)

lemma find_in_string:
  "find_in (JStr s) = (if qualifies s then Some (url_of s) else None)"
  by (auto simp: qualifies_def url_of_def split: option.splits)

lemma find_holds: "List.find P xs = Some x \<Longrightarrow> P x"
  by (induction xs) (auto split: if_splits)

lemma truthy_found:
  "truthy (map_option url_of (List.find qualifies xs)) = (List.find qualifies xs \<noteq> None)"
  by (cases "List.find qualifies xs") (auto dest: find_holds url_of_nonempty)

lemma find_append_first:
  "List.find P (xs @ ys) = (case List.find P xs of Some x \<Rightarrow> Some x | None \<Rightarrow> List.find P ys)"
  by (induction xs) auto

lemma find_in_is_dfs:
  "find_in j = map_option url_of (List.find qualifies (strings_dfs j))"
  "find_each vs = map_option url_of (List.find qualifies (strings_dfs_each vs))"
  "find_values items = map_option url_of (List.find qualifies (strings_dfs_values items))"
proof (induction j and vs and items rule: find_in_find_each_find_values.induct)
  case (1 s)
  show ?case by (simp only: find_in_string strings_dfs.simps) simp
next
  case (8 v vs)
  then show ?case
    by (simp add: Let_def truthy_found find_append_first split: option.splits)
next
  case (10 kv items)
  then show ?case
    by (simp add: Let_def truthy_found find_append_first split: option.splits)
qed simp_all

text \<open>
  C4, as the code has it. For a mapping none of whose known fields holds a string
  starting with \<^verbatim>\<open>http\<close>, extraction finds the first qualifying string value of the depth-first
  search and returns that value when it starts with \<^verbatim>\<open>http\<close>, and otherwise the leftmost
  match of the generic URL pattern in it; it returns nothing when no string qualifies.
  For a payload whose top level is a sequence it returns nothing.
\<close>

theorem extract_url_nested_search:
  assumes "\<forall>k \<in> set known_fields. \<forall>v. dict_get items k = Some (JStr v) \<longrightarrow> \<not> startswith v ''http''"
  shows "extract_url (JDict items) = map_option url_of (first_qualifying (JDict items))
    \<and> extract_url (JList vs) = None"
  using known_field_lookup_none [OF assms] find_in_is_dfs(1) [of "JDict items"]
  by (simp add: first_qualifying_def)

theorem extract_url_nested_search_witness:
  "extract_url (JDict [(''data'', JList [JNum 1, JDict [(''x'', JStr ''none here'')],
       JStr ''see https://x.y/z now'', JStr ''http://q''])]) = Some ''https://x.y/z''"
proof -
  have "\<forall>k \<in> set known_fields. \<forall>v. dict_get [(''data'', JList [JNum 1,
       JDict [(''x'', JStr ''none here'')],
       JStr ''see https://x.y/z now'', JStr ''http://q''])] k = Some (JStr v)
        \<longrightarrow> \<not> startswith v ''http''"
    by (simp add: known_fields_def dict_get_def)
  from extract_url_nested_search [OF this]
  show ?thesis
    by (simp add: first_qualifying_def qualifies_def url_of_def startswith_def match_here_def
        nonspace_run_def is_space_def)
qed

text \<open>
  Against C4 as stated: a sequence at the top level that holds a URL yields nothing, though
  the search would find the URL; and for a string that only contains a URL the match is
  returned, not the string value.
\<close>

theorem extract_url_sequence_counterexample:
  "extract_url (JList [JStr ''http://a'']) \<noteq> first_qualifying (JList [JStr ''http://a''])
   \<and> extract_url (JDict [(''a'', JStr ''see https://x.y now'')])
       \<noteq> first_qualifying (JDict [(''a'', JStr ''see https://x.y now'')])"
  by (simp add: first_qualifying_def qualifies_def startswith_def match_here_def
      nonspace_run_def is_space_def known_fields_def dict_get_def)

section \<open>Progress events\<close>

lemma compute_percent_mono:
  "t \<noteq> 0 \<Longrightarrow> a \<le> b \<Longrightarrow> compute_percent a t \<le> compute_percent b t"
  by (simp add: compute_percent_def div_le_mono)

lemma compute_percent_below:
  "a < t \<Longrightarrow> compute_percent a t < 100"
  by (simp add: compute_percent_def less_mult_imp_div_less)

lemma compute_percent_full: "t \<noteq> 0 \<Longrightarrow> compute_percent t t = 100"
  by (simp add: compute_percent_def)

lemma percent_of_event: "percent_of (p, d, t) = p"
  by (simp add: percent_of_def)

lemma should_emit_even: "should_emit p lp \<Longrightarrow> even p \<and> p \<noteq> lp"
  by (auto simp: should_emit_def)

lemma stream_loop_grows:
  "downloaded_after (stream_loop N t items tmp dl lp) \<ge> dl"
proof (induction items arbitrary: tmp dl lp)
  case Nil
  then show ?case by simp
next
  case (Cons it items)
  show ?case
  proof (cases it)
    case StreamFault
    then show ?thesis by simp
  next
    case (Chunk c)
    with Cons.IH [where tmp = "write_to tmp c" and dl = "dl + length c"] show ?thesis
      by (auto simp: Let_def intro: add_leD1)
  qed
qed

lemma stream_loop_emitted:
  "t \<noteq> 0 \<Longrightarrow> lp \<le> compute_percent dl t \<Longrightarrow>
   sorted_wrt (<) (map percent_of (emitted (stream_loop N t items tmp dl lp)))
   \<and> (\<forall>p \<in> set (map percent_of (emitted (stream_loop N t items tmp dl lp))).
        lp < p \<and> even p
        \<and> p \<le> compute_percent (downloaded_after (stream_loop N t items tmp dl lp)) t)"
proof (induction items arbitrary: tmp dl lp)
  case Nil
  then show ?case by simp
next
  case (Cons it items)
  show ?case
  proof (cases it)
    case StreamFault
    then show ?thesis by simp
  next
    case (Chunk c)
    show ?thesis
    proof (cases "c = []")
      case True
      with Chunk show ?thesis by simp
    next
      case False
      let ?dl = "dl + length c"
      let ?p = "compute_percent ?dl t"
      have step: "lp \<le> ?p"
        using Cons.prems compute_percent_mono [of t dl ?dl] by simp
      show ?thesis
      proof (cases "should_emit ?p lp")
        case True
        let ?r = "stream_loop N t items (write_to tmp c) ?dl ?p"
        from Cons.IH [OF Cons.prems(1), of ?p ?dl "write_to tmp c"]
        have IH: "sorted_wrt (<) (map percent_of (emitted ?r))"
          "\<forall>p \<in> set (map percent_of (emitted ?r)).
             ?p < p \<and> even p \<and> p \<le> compute_percent (downloaded_after ?r) t"
          by simp_all
        have top: "?p \<le> compute_percent (downloaded_after ?r) t"
          using compute_percent_mono [OF Cons.prems(1) stream_loop_grows] .
        from should_emit_even [OF True] step have lt: "lp < ?p" "even ?p" by simp_all
        from Chunk False True Cons.prems(1)
        have unfold: "stream_loop N t (it # items) tmp dl lp
          = ?r\<lparr>emitted := (?p, ?dl, t) # emitted ?r, pulled := Suc (pulled ?r)\<rparr>"
          by (simp add: Let_def)
        show ?thesis
          unfolding unfold using IH lt top by (auto simp: percent_of_event)
      next
        case no: False
        let ?r = "stream_loop N t items (write_to tmp c) ?dl lp"
        from Cons.IH [OF Cons.prems(1) step, of "write_to tmp c"]
        have IH: "sorted_wrt (<) (map percent_of (emitted ?r))"
          "\<forall>p \<in> set (map percent_of (emitted ?r)).
             lp < p \<and> even p \<and> p \<le> compute_percent (downloaded_after ?r) t"
          by simp_all
        from Chunk False no Cons.prems(1)
        have unfold: "stream_loop N t (it # items) tmp dl lp
          = ?r\<lparr>pulled := Suc (pulled ?r)\<rparr>"
          by (simp add: Let_def)
        show ?thesis unfolding unfold using IH by simp
      qed
    qed
  qed
qed

lemma stream_loop_reaches_full:
  "t \<noteq> 0 \<Longrightarrow> dl < t \<Longrightarrow> lp \<le> compute_percent dl t \<Longrightarrow>
   downloaded_after (stream_loop N t items tmp dl lp) = t \<Longrightarrow>
   100 \<in> set (map percent_of (emitted (stream_loop N t items tmp dl lp)))"
proof (induction items arbitrary: tmp dl lp)
  case Nil
  then show ?case by simp
next
  case (Cons it items)
  show ?case
  proof (cases it)
    case StreamFault
    with Cons.prems show ?thesis by simp
  next
    case (Chunk c)
    show ?thesis
    proof (cases "c = []")
      case True
      with Chunk Cons.prems show ?thesis by simp
    next
      case False
      let ?dl = "dl + length c"
      let ?p = "compute_percent ?dl t"
      have step: "lp \<le> ?p"
        using Cons.prems compute_percent_mono [of t dl ?dl] by simp
      have lp100: "lp < 100" using Cons.prems(3) compute_percent_below [OF Cons.prems(2)] by simp
      consider (eq) "?dl = t" | (less) "?dl < t" | (more) "t < ?dl" by linarith
      then show ?thesis
      proof cases
        case eq
        then have p: "?p = 100" using compute_percent_full [OF Cons.prems(1)] by simp
        with lp100 have "should_emit ?p lp" by (simp add: should_emit_def)
        with Chunk False Cons.prems(1) p show ?thesis
          by (simp add: Let_def percent_of_event)
      next
        case less
        show ?thesis
        proof (cases "should_emit ?p lp")
          case True
          with Chunk False Cons.prems(1,4)
          have "downloaded_after (stream_loop N t items (write_to tmp c) ?dl ?p) = t"
            by (simp add: Let_def)
          from Cons.IH [OF Cons.prems(1) less _ this] Chunk False True Cons.prems(1)
          show ?thesis by (simp add: Let_def)
        next
          case no: False
          with Chunk False Cons.prems(1,4)
          have "downloaded_after (stream_loop N t items (write_to tmp c) ?dl lp) = t"
            by (simp add: Let_def)
          from Cons.IH [OF Cons.prems(1) less step this] Chunk False no Cons.prems(1)
          show ?thesis by (simp add: Let_def)
        qed
      next
        case more
        have "downloaded_after (stream_loop N t (it # items) tmp dl lp) \<ge> ?dl"
          using Chunk False Cons.prems(1) stream_loop_grows [where dl = ?dl and N = N and t = t and items = items and tmp = "write_to tmp c"]
          by (auto simp: Let_def)
        with more Cons.prems(4) show ?thesis by simp
      qed
    qed
  qed
qed

lemma even_steps_bounded:
  "sorted_wrt (<) ps \<Longrightarrow> \<forall>p \<in> set ps. lo < p \<and> even p \<and> p \<le> (100::int) \<Longrightarrow>
   lo \<le> 101 \<Longrightarrow> 2 * int (length ps) \<le> 101 - lo"
proof (induction ps arbitrary: lo)
  case Nil
  then show ?case by simp
next
  case (Cons p ps)
  have "\<forall>q \<in> set ps. p + 1 < q \<and> even q \<and> q \<le> 100"
  proof
    fix q assume q: "q \<in> set ps"
    with Cons.prems have "p < q" "even q" "even p" "q \<le> 100" by auto
    then have "q \<noteq> p + 1" by auto
    with \<open>p < q\<close> \<open>even q\<close> \<open>q \<le> 100\<close> show "p + 1 < q \<and> even q \<and> q \<le> 100" by simp
  qed
  moreover from Cons.prems(1) have "sorted_wrt (<) ps" by simp
  moreover from Cons.prems(2) have "p + 1 \<le> 101" by simp
  ultimately have "2 * int (length ps) \<le> 101 - (p + 1)" using Cons.IH [of "p + 1"] by blast
  moreover from Cons.prems(2) have "lo < p" by simp
  ultimately show ?case by simp
qed

lemma strictly_sorted_count:
  "sorted_wrt (<) ps \<Longrightarrow>
   length (filter (\<lambda>q. q = p) ps) = (if (p::int) \<in> set ps then 1 else 0)"
  by (induction ps) auto

lemma download_success_progress:
  assumes "content_length resp = Some n"
    and "result (download_into_spooled_file (Response resp) mb N) = Inr (f, m, ct, nm)"
  shows "progress (download_into_spooled_file (Response resp) mb N)
      = emitted (stream_loop N n (body resp) (SpooledTemporaryFile (mb * 1024 * 1024)) 0 (- 1))
          @ [(100, m, n)]
    \<and> m = downloaded_after
          (stream_loop N n (body resp) (SpooledTemporaryFile (mb * 1024 * 1024)) 0 (- 1))"
proof -
  let ?r = "stream_loop N n (body resp) (SpooledTemporaryFile (mb * 1024 * 1024)) 0 (- 1)"
  let ?d = "download_into_spooled_file (Response resp) mb N"
  have st: "status resp = 200"
    using assms(2) by (cases "status resp = 200") (simp_all add: download_into_spooled_file_def Let_def)
  have lim: "\<not> (N \<noteq> 0 \<and> n \<noteq> 0 \<and> N < int n)"
    using assms st
    by (cases "N \<noteq> 0 \<and> n \<noteq> 0 \<and> N < int n")
      (simp_all add: download_into_spooled_file_def Let_def)
  have unfold: "?d = (case raised ?r of
        Some e \<Rightarrow> \<lparr>result = Inl e, tmp_file = file_after ?r, progress = emitted ?r,
           items_read = pulled ?r\<rparr>
      | None \<Rightarrow> \<lparr>result = Inr (seek (file_after ?r) 0, downloaded_after ?r,
             (if content_type resp = [] then None else Some (content_type resp)),
             name_hint resp),
           tmp_file = seek (file_after ?r) 0,
           progress = emitted ?r @ [(100, downloaded_after ?r, n)],
           items_read = pulled ?r\<rparr>)"
    using st lim assms(1) unfolding download_into_spooled_file_def Let_def
    by (simp only: http_get.case option.case if_False refl not_True_eq_False not_not)
  show ?thesis
  proof (cases "raised ?r")
    case None
    with unfold assms(2) show ?thesis by simp
  next
    case (Some e)
    with unfold assms(2) show ?thesis by simp
  qed
qed

lemma count_percent_map:
  "count_percent p evs = length (filter (\<lambda>q. q = p) (map percent_of evs))"
  by (simp add: count_percent_def filter_map comp_def)

text \<open>
  C1, as the code has it. For a successful transfer with an advertised content length
  \<open>n > 0\<close> whose body delivers at most \<open>n\<close> bytes, the percents of the progress calls never
  decrease, the last call carries 100, there are at most 52 calls whatever \<open>n\<close> is, and
  those carrying 100 are two when the body delivers exactly \<open>n\<close> bytes (the loop's own
  call and the final one) and one otherwise.
\<close>

theorem progress_events_known_total:
  assumes "content_length resp = Some n" and "0 < n"
    and "result (download_into_spooled_file (Response resp) mb N) = Inr (f, m, ct, nm)"
    and "m \<le> n"
  shows "sorted (map percent_of (progress (download_into_spooled_file (Response resp) mb N)))
    \<and> percent_of (last (progress (download_into_spooled_file (Response resp) mb N))) = 100
    \<and> count_percent 100 (progress (download_into_spooled_file (Response resp) mb N))
        = (if m = n then 2 else 1)
    \<and> length (progress (download_into_spooled_file (Response resp) mb N)) \<le> 52"
proof -
  let ?r = "stream_loop N n (body resp) (SpooledTemporaryFile (mb * 1024 * 1024)) 0 (- 1)"
  let ?ps = "map percent_of (emitted ?r)"
  from assms(2) have n0: "n \<noteq> 0" by simp
  from download_success_progress [OF assms(1,3)]
  have prog: "progress (download_into_spooled_file (Response resp) mb N)
      = emitted ?r @ [(100, m, n)]"
    and m: "m = downloaded_after ?r" by simp_all
  have start: "- 1 \<le> compute_percent 0 n" by (simp add: compute_percent_def)
  from stream_loop_emitted [OF n0 start]
  have strict: "sorted_wrt (<) ?ps"
    and each: "\<forall>p \<in> set ?ps. - 1 < p \<and> even p \<and> p \<le> compute_percent m n"
    using m by simp_all
  have top: "compute_percent m n \<le> 100"
    using compute_percent_mono [OF n0 assms(4)] compute_percent_full [OF n0] by simp
  from each top have bounded: "\<forall>p \<in> set ?ps. - 1 < p \<and> even p \<and> p \<le> 100" by auto
  have sorted_ps: "sorted ?ps"
    using strict by (rule sorted_wrt_mono_rel [rotated]) simp
  have a: "sorted (map percent_of (emitted ?r @ [(100, m, n)]))"
    using sorted_ps bounded by (simp add: sorted_append percent_of_event)
  have b: "percent_of (last (emitted ?r @ [(100, m, n)])) = 100"
    by (simp add: percent_of_event)
  have "2 * int (length ?ps) \<le> 101 - (- 1)"
    by (rule even_steps_bounded [OF strict bounded]) simp
  then have d: "length (emitted ?r @ [(100, m, n)]) \<le> 52" by simp
  have inloop: "length (filter (\<lambda>q. q = 100) ?ps) = (if m = n then 1 else 0)"
  proof (cases "m = n")
    case True
    with m have "downloaded_after ?r = n" by simp
    from stream_loop_reaches_full [OF n0 assms(2) start this] True
      strictly_sorted_count [OF strict, of 100]
    show ?thesis by simp
  next
    case False
    with assms(4) have "m < n" by simp
    from compute_percent_below [OF this] each have "100 \<notin> set ?ps" by auto
    with False strictly_sorted_count [OF strict, of 100] show ?thesis by simp
  qed
  have c: "count_percent 100 (emitted ?r @ [(100, m, n)]) = (if m = n then 2 else 1)"
    using inloop by (simp add: count_percent_map percent_of_event)
  from a b c d show ?thesis unfolding prog by blast
qed

theorem progress_events_known_total_witness:
  "map percent_of (progress (download_into_spooled_file
      (Response \<lparr>status = 200, content_length = Some 4, content_type = [],
        name_hint = ''f.bin'', body = [Chunk [1], Chunk [2], Chunk [3, 4]]\<rparr>) 16 0))
     = [50, 100, 100]
   \<and> count_percent 100 (progress (download_into_spooled_file
      (Response \<lparr>status = 200, content_length = Some 4, content_type = [],
        name_hint = ''f.bin'', body = [Chunk [1], Chunk [2], Chunk [3, 4]]\<rparr>) 16 0)) = 2"
proof -
  have r: "result (download_into_spooled_file
      (Response \<lparr>status = 200, content_length = Some 4, content_type = [],
        name_hint = ''f.bin'', body = [Chunk [1], Chunk [2], Chunk [3, 4]]\<rparr>) 16 0)
     = Inr (\<lparr>content = [1, 2, 3, 4], pos = 0, closed = False, spool_max = 16777216,
              rolled = False\<rparr>, 4, None, ''f.bin'')"
    by (simp add: download_into_spooled_file_def SpooledTemporaryFile_def Let_def write_to_def
        seek_def compute_percent_def should_emit_def)
  have p: "map percent_of (progress (download_into_spooled_file
      (Response \<lparr>status = 200, content_length = Some 4, content_type = [],
        name_hint = ''f.bin'', body = [Chunk [1], Chunk [2], Chunk [3, 4]]\<rparr>) 16 0))
     = [50, 100, 100]"
    by (simp add: download_into_spooled_file_def SpooledTemporaryFile_def Let_def write_to_def
        seek_def compute_percent_def should_emit_def percent_of_def)
  from progress_events_known_total [OF _ _ r] p show ?thesis by simp
qed

text \<open>
  Against C1 as stated: a body of exactly the advertised length gets two calls with 100,
  and a body longer than advertised gets percents above 100 before the final 100.
\<close>

theorem progress_events_counterexample:
  "count_percent 100 (progress (download_into_spooled_file
      (Response \<lparr>status = 200, content_length = Some 1, content_type = [],
        name_hint = ''f.bin'', body = [Chunk [0]]\<rparr>) 16 0)) \<noteq> 1
   \<and> \<not> sorted (map percent_of (progress (download_into_spooled_file
      (Response \<lparr>status = 200, content_length = Some 1, content_type = [],
        name_hint = ''f.bin'', body = [Chunk [0], Chunk [0]]\<rparr>) 16 0)))"
  by (simp add: download_into_spooled_file_def SpooledTemporaryFile_def Let_def write_to_def
      seek_def compute_percent_def should_emit_def percent_of_def count_percent_def)

section \<open>Properties of delivery\<close>

lemmas delivery_defs = deliver_def upload_def try_except_def perform_def send_def seek0_def
  read_def seek_def close_def attempt_def outcome_of_def Let_def

lemma deliver_closes: "deliver env dc is_video w = (r, w') \<Longrightarrow> closed (the_file w')"
  by (auto simp: deliver_def close_def split: prod.splits)

lemma archive_copy_failure_log:
  assumes "dc = Some ch" and "ch \<noteq> []" and "\<not> closed f"
    and "m = (if is_video then Video else Document)"
    and "env (EditText UploadingToDumbChannel)" and "env (SendMedia m (DumbChannel ch))"
    and "env (EditText CopyingToYou)" and "\<not> env (CopyMessage ch)"
  shows "log (snd (deliver env dc is_video \<lparr>the_file = f, log = l\<rparr>))
    = l @ [Did (EditText UploadingToDumbChannel), Sent m (DumbChannel ch) (content f),
           Did (EditText CopyingToYou), Failed (CopyMessage ch)]
        @ (if env (SendMedia m Requester) then
             Sent m Requester (content f)
             # (if env (StatIncr ''uploaded_files'') then
                  Did (StatIncr ''uploaded_files'')
                  # (if env (EditText DoneStoredAndDelivered) then
                       [Did (EditText DoneStoredAndDelivered)]
                     else
                       [Failed (EditText DoneStoredAndDelivered),
                        attempt env (EditText (UploadFailed
                          (CallFailed (EditText DoneStoredAndDelivered))))])
                else
                  [Failed (StatIncr ''uploaded_files''),
                   attempt env (EditText (UploadFailed (CallFailed (StatIncr ''uploaded_files''))))])
           else
             [Failed (SendMedia m Requester),
              attempt env (EditText (UploadFailed (CallFailed (SendMedia m Requester))))])"
  using assms by (simp add: delivery_defs)


lemma full_read_from_start:
  "read g = Some (content g, g') \<Longrightarrow> content g \<noteq> [] \<Longrightarrow> pos g = 0"
proof -
  assume r: "read g = Some (content g, g')" and ne: "content g \<noteq> []"
  from r have "drop (pos g) (content g) = content g"
    by (simp add: read_def split: if_splits)
  then have "length (content g) - pos g = length (content g)"
    by (metis length_drop)
  with ne show "pos g = 0" by (cases "content g") simp_all
qed

text \<open>
  C8. In archive mode, once the upload to the archive has returned and the copy to the
  requester raises, the handler makes exactly one further upload, to the requester, and
  that upload reads the whole buffered content, as the archive upload did before it:
  the file is back at position 0 when it starts. No status edit reports the copy's
  failure; an upload failure is reported only when the fallback upload or a later call
  raises, and then it names that call.
\<close>

theorem archive_copy_failure_falls_back:
  assumes "dc = Some ch" and "ch \<noteq> []" and "\<not> closed f"
    and "m = (if is_video then Video else Document)"
    and "env (EditText UploadingToDumbChannel)" and "env (SendMedia m (DumbChannel ch))"
    and "env (EditText CopyingToYou)" and "\<not> env (CopyMessage ch)"
  shows "\<exists>tail. log (snd (deliver env dc is_video \<lparr>the_file = f, log = l\<rparr>))
        = l @ [Did (EditText UploadingToDumbChannel), Sent m (DumbChannel ch) (content f),
               Did (EditText CopyingToYou), Failed (CopyMessage ch),
               (if env (SendMedia m Requester) then Sent m Requester (content f)
                else Failed (SendMedia m Requester))] @ tail
      \<and> filter to_requester tail = []
      \<and> CallFailed (CopyMessage ch) \<notin> set (upload_failure_reports tail)
      \<and> (upload_failure_reports tail = [])
          = (env (SendMedia m Requester) \<and> env (StatIncr ''uploaded_files'')
             \<and> env (EditText DoneStoredAndDelivered))"
proof -
  let ?tail = "if env (SendMedia m Requester) then
      (if env (StatIncr ''uploaded_files'') then
         Did (StatIncr ''uploaded_files'')
         # (if env (EditText DoneStoredAndDelivered) then
              [Did (EditText DoneStoredAndDelivered)]
            else
              [Failed (EditText DoneStoredAndDelivered),
               attempt env (EditText (UploadFailed
                 (CallFailed (EditText DoneStoredAndDelivered))))])
       else
         [Failed (StatIncr ''uploaded_files''),
          attempt env (EditText (UploadFailed (CallFailed (StatIncr ''uploaded_files''))))])
    else [attempt env (EditText (UploadFailed (CallFailed (SendMedia m Requester))))]"
  have "log (snd (deliver env dc is_video \<lparr>the_file = f, log = l\<rparr>))
        = l @ [Did (EditText UploadingToDumbChannel), Sent m (DumbChannel ch) (content f),
               Did (EditText CopyingToYou), Failed (CopyMessage ch),
               (if env (SendMedia m Requester) then Sent m Requester (content f)
                else Failed (SendMedia m Requester))] @ ?tail"
    using archive_copy_failure_log [OF assms, of l] by simp
  moreover have "filter to_requester ?tail = []"
    by (simp add: attempt_def)
  moreover have "CallFailed (CopyMessage ch) \<notin> set (upload_failure_reports ?tail)"
    by (simp add: attempt_def)
  moreover have "(upload_failure_reports ?tail = [])
          = (env (SendMedia m Requester) \<and> env (StatIncr ''uploaded_files'')
             \<and> env (EditText DoneStoredAndDelivered))"
    by (simp add: attempt_def)
  ultimately show ?thesis by blast
qed

theorem archive_copy_failure_witness:
  "\<exists>tail. log (snd (deliver (\<lambda>c. c \<noteq> CopyMessage ''@arch'') (Some ''@arch'') True
          \<lparr>the_file = \<lparr>content = [1, 2], pos = 0, closed = False, spool_max = 16777216,
              rolled = False\<rparr>, log = []\<rparr>))
        = [] @ [Did (EditText UploadingToDumbChannel), Sent Video (DumbChannel ''@arch'') [1, 2],
               Did (EditText CopyingToYou), Failed (CopyMessage ''@arch''),
               Sent Video Requester [1, 2]] @ tail
      \<and> filter to_requester tail = []
      \<and> upload_failure_reports tail = []"
  using archive_copy_failure_falls_back
    [of "Some ''@arch''" "''@arch''"
      "\<lparr>content = [1, 2], pos = 0, closed = False, spool_max = 16777216, rolled = False\<rparr>"
      Video True "\<lambda>c. c \<noteq> CopyMessage ''@arch''" "[]"]
  by auto

section \<open>The buffer on the handler's exit paths\<close>

text \<open>
  Once the transfer engine has returned a file and \<^verbatim>\<open>db_get("dumb_channel")\<close> has returned,
  the handler closes the file on every path. The read of the setting at line 448 stands
  outside the \<^verbatim>\<open>try\<close>; a failure of it is not modelled.
\<close>

lemma text_handler_closes_after_download:
  assumes "extract_url api_data = Some url" and "url \<noteq> []"
    and "env (StatIncr ''resolved_links'')"
    and "result (download_into_spooled_file (fetch url) mb N) = Inr x"
  shows "\<exists>f. buffer (text_handler env fetch mb N dc api_data) = Some f \<and> closed f"
  using assms
  by (auto simp: text_handler_def Let_def split: prod.splits dest: deliver_closes)

text \<open>
  C2 does not hold at a transfer that breaches the limit in mid-stream: the handler
  reports the failed download and returns, and the file the engine created has not been
  closed. No path of \<^verbatim>\<open>download_into_spooled_file\<close> that raises closes it, and the handler's
  \<^verbatim>\<open>except\<close> clause of lines 433 to 436 has no hold on it.
\<close>

theorem download_failure_leaves_buffer_open:
  "buffer (text_handler (\<lambda>c. True)
      (\<lambda>u. Response \<lparr>status = 200, content_length = None, content_type = [],
         name_hint = ''f.bin'', body = [Chunk [1, 2]]\<rparr>)
      16 1 None (JDict [(''download'', JStr ''http://h/f.bin'')]))
     = Some \<lparr>content = [1, 2], pos = 2, closed = False, spool_max = 16777216, rolled = False\<rparr>
   \<and> effects (text_handler (\<lambda>c. True)
      (\<lambda>u. Response \<lparr>status = 200, content_length = None, content_type = [],
         name_hint = ''f.bin'', body = [Chunk [1, 2]]\<rparr>)
      16 1 None (JDict [(''download'', JStr ''http://h/f.bin'')]))
     = [Did (StatIncr ''resolved_links''),
        Did (EditText (DownloadFailed (FileTooLargeDownloaded 2 1)))]"
  by (simp add: text_handler_def known_fields_def dict_get_def startswith_def
      download_into_spooled_file_def SpooledTemporaryFile_def Let_def write_to_def
      attempt_def)

end
